theory Spec2Isabelle
  imports Complex_Main "HOL-Library.Word"
begin

section \<open>Device classifier (nilm_filters.h, nilm_filters.c)\<close>

text \<open>
  The C code computes in single-precision \<^verbatim>\<open>float\<close>. Throughout this development a
  \<^verbatim>\<open>float\<close> is modelled by the real number it denotes and the arithmetic is exact:
  rounding, infinities and NaN are outside the model. Comparisons of floats are exact
  in C as well, so the classifier below is faithful on every finite input.
\<close>

text \<open>\<^verbatim>\<open>device_type_t\<close>, in the order of the enum.\<close>

datatype device_type_t =
    DEVICE_UNKNOWN
  | DEVICE_LIGHT
  | DEVICE_MICROWAVE
  | DEVICE_WASHING_MACHINE
  | DEVICE_DISHWASHER
  | DEVICE_REFRIGERATOR
  | DEVICE_AIR_CONDITIONER
  | DEVICE_WATER_HEATER
  | DEVICE_TV
  | DEVICE_COMPUTER
  | DEVICE_OTHER

text \<open>\<^verbatim>\<open>device_power_range_t\<close>: one row of the classification table.\<close>

record device_power_range_t =
  type :: device_type_t
  name :: string
  min_power :: real
  max_power :: real

text \<open>\<^verbatim>\<open>device_table\<close>, in declared order (nilm_filters.h, lines 84-94).\<close>

definition device_table :: "device_power_range_t list" where
  "device_table =
    [\<lparr>type = DEVICE_LIGHT, name = ''Light'', min_power = 5, max_power = 100\<rparr>,
     \<lparr>type = DEVICE_TV, name = ''Television'', min_power = 50, max_power = 200\<rparr>,
     \<lparr>type = DEVICE_COMPUTER, name = ''Computer'', min_power = 100, max_power = 400\<rparr>,
     \<lparr>type = DEVICE_MICROWAVE, name = ''Microwave'', min_power = 800, max_power = 1500\<rparr>,
     \<lparr>type = DEVICE_DISHWASHER, name = ''Dishwasher'', min_power = 1200, max_power = 2000\<rparr>,
     \<lparr>type = DEVICE_WASHING_MACHINE, name = ''Washing Machine'', min_power = 500, max_power = 2500\<rparr>,
     \<lparr>type = DEVICE_AIR_CONDITIONER, name = ''Air Conditioner'', min_power = 1000, max_power = 3000\<rparr>,
     \<lparr>type = DEVICE_WATER_HEATER, name = ''Water Heater'', min_power = 1500, max_power = 4000\<rparr>,
     \<lparr>type = DEVICE_REFRIGERATOR, name = ''Refrigerator'', min_power = 100, max_power = 300\<rparr>]"

text \<open>
  The \<^verbatim>\<open>for\<close> loop of \<^verbatim>\<open>classify_device_by_power\<close>: the rows are visited in order and
  the first row whose closed range holds \<^verbatim>\<open>abs_power\<close> ends the function with its type;
  \<open>None\<close> is the loop running to its end.
\<close>

fun scan_device_table :: "real \<Rightarrow> device_power_range_t list \<Rightarrow> device_type_t option" where
  "scan_device_table abs_power [] = None"
| "scan_device_table abs_power (e # es) =
     (if abs_power \<ge> min_power e \<and> abs_power \<le> max_power e then Some (type e)
      else scan_device_table abs_power es)"

definition classify_device_by_power :: "real \<Rightarrow> device_type_t" where
  "classify_device_by_power delta_power =
     (let abs_power = \<bar>delta_power\<bar> in
      case scan_device_table abs_power device_table of
        Some t \<Rightarrow> t
      | None \<Rightarrow> (if abs_power > 50 then DEVICE_OTHER else DEVICE_UNKNOWN))"

text \<open>Whether a row's inclusive range holds a magnitude.\<close>

definition in_range :: "real \<Rightarrow> device_power_range_t \<Rightarrow> bool" where
  "in_range p e = (min_power e \<le> p \<and> p \<le> max_power e)"


section \<open>Sample accumulator and decimator (main_NILM_Event_Detector.c, cbTask)\<close>

definition DECIMATION_FACTOR :: nat where
  "DECIMATION_FACTOR = 2000"

text \<open>
  The two channel identifiers are enumerators of the ADC driver's headers
  (\<^verbatim>\<open>ADC1_CHANNEL_4\<close>, \<^verbatim>\<open>ADC1_CHANNEL_5\<close>); the driver numbers them 4 and 5. Nothing below
  depends on the numbers beyond their being different.
\<close>

definition ADC1_CHANNEL_4 :: nat where
  "ADC1_CHANNEL_4 = 4"

definition ADC1_CHANNEL_5 :: nat where
  "ADC1_CHANNEL_5 = 5"

text \<open>
  The globals that \<^verbatim>\<open>cbTask\<close> writes: \<^verbatim>\<open>voltage_sum[2]\<close>, \<^verbatim>\<open>decimation_counter\<close>
  (a \<^verbatim>\<open>uint32_t\<close>, kept as a natural number with the wrap-around of the increment
  written out), \<^verbatim>\<open>voltage[2]\<close> and the flag \<^verbatim>\<open>New_ADC_data\<close>.
\<close>

record cb_state =
  voltage_sum :: "real list"
  decimation_counter :: nat
  voltage :: "real list"
  New_ADC_data :: bool

text \<open>The static initialisers: sums and counter zero, flag \<^verbatim>\<open>pdFALSE\<close>.\<close>

definition cb_init :: cb_state where
  "cb_init = \<lparr>voltage_sum = [0, 0], decimation_counter = 0, voltage = [0, 0],
              New_ADC_data = False\<rparr>"

text \<open>
  One iteration of the \<^verbatim>\<open>for\<close> loop over the conversion results (lines 174-202), for
  one result \<open>(channel, data)\<close>. The second component tells whether the iteration
  called \<^verbatim>\<open>xTaskNotifyGive\<close>, that is, whether it emitted a voltage pair.
\<close>

definition cb_sample :: "nat \<times> nat \<Rightarrow> cb_state \<Rightarrow> cb_state \<times> bool" where
  "cb_sample smp st =
     (let channel = fst smp; data = snd smp;
          st1 = (if channel = ADC1_CHANNEL_4
                 then st\<lparr>voltage_sum :=
                        (voltage_sum st)[0 := voltage_sum st ! 0 + real data * 3.3 / 4095]\<rparr>
                 else if channel = ADC1_CHANNEL_5
                 then st\<lparr>voltage_sum :=
                        (voltage_sum st)[1 := voltage_sum st ! 1 + real data * 3.3 / 4095]\<rparr>
                 else st);
          st2 = st1\<lparr>decimation_counter := (decimation_counter st1 + 1) mod 2 ^ 32\<rparr>
      in if decimation_counter st2 \<ge> DECIMATION_FACTOR
         then (st2\<lparr>voltage := [voltage_sum st2 ! 0 / real DECIMATION_FACTOR,
                                voltage_sum st2 ! 1 / real DECIMATION_FACTOR],
                    voltage_sum := [0, 0],
                    decimation_counter := 0,
                    New_ADC_data := True\<rparr>, True)
         else (st2, False))"

text \<open>
  The loop over a block of results. The list returned holds, in order, the voltage
  pairs that were emitted while the block was consumed.
\<close>

fun cb_samples :: "(nat \<times> nat) list \<Rightarrow> cb_state \<Rightarrow> cb_state \<times> (real list) list" where
  "cb_samples [] st = (st, [])"
| "cb_samples (smp # rest) st =
     (let (st', emitted) = cb_sample smp st;
          (st'', pairs) = cb_samples rest st'
      in (st'', (if emitted then [voltage st'] else []) @ pairs))"

text \<open>The converted samples of one channel in a block, and their mean.\<close>

definition channel_volts :: "nat \<Rightarrow> (nat \<times> nat) list \<Rightarrow> real list" where
  "channel_volts ch smps = map (\<lambda>smp. real (snd smp) * 3.3 / 4095) (filter (\<lambda>smp. fst smp = ch) smps)"

definition mean :: "real list \<Rightarrow> real" where
  "mean vs = sum_list vs / real (length vs)"

section \<open>High-pass filter of the main pipeline (main_NILM_Event_Detector.c)\<close>

text \<open>\<^verbatim>\<open>biquad_state_t\<close>: the arrays \<^verbatim>\<open>x[3]\<close> and \<^verbatim>\<open>y[3]\<close> of one section.\<close>

record biquad_state_t =
  x :: "real list"
  y :: "real list"

text \<open>\<^verbatim>\<open>filter_coeffs[3][6]\<close>, each row \<^verbatim>\<open>[b0, b1, b2, a0, a1, a2]\<close> (lines 55-62).\<close>

definition filter_coeffs :: "real list list" where
  "filter_coeffs =
    [[0.999001949317, -1.998003898634, 0.999001949317, 1.0, -1.998001949634, 0.998005898268],
     [1.000000000000, -2.000000000000, 1.000000000000, 1.0, -1.997003947368, 0.997005896736],
     [1.000000000000, -2.000000000000, 1.000000000000, 1.0, -1.996007894737, 0.996009844211]]"

text \<open>\<^verbatim>\<open>filter_states\<close> after the \<^verbatim>\<open>memset\<close> of \<^verbatim>\<open>app_main\<close>.\<close>

definition filter_states_init :: "biquad_state_t list" where
  "filter_states_init = replicate 3 \<lparr>x = [0, 0, 0], y = [0, 0, 0]\<rparr>"

text \<open>
  \<^verbatim>\<open>apply_biquad\<close> (lines 75-97), statement by statement. The input history is shifted
  before the output is computed; the output history is shifted after it, so the output
  is computed from \<^verbatim>\<open>y[1]\<close> and \<^verbatim>\<open>y[2]\<close> as the previous call left them.
\<close>

definition apply_biquad :: "real \<Rightarrow> nat \<Rightarrow> biquad_state_t list \<Rightarrow> real \<times> biquad_state_t list" where
  "apply_biquad input section filter_states =
     (let state = filter_states ! section;
          coeffs = filter_coeffs ! section;
          xa = (x state)[2 := x state ! 1];
          xb = xa[1 := xa ! 0];
          xc = xb[0 := input];
          output = coeffs ! 0 * xc ! 0 +
                   coeffs ! 1 * xc ! 1 +
                   coeffs ! 2 * xc ! 2 -
                   coeffs ! 4 * y state ! 1 -
                   coeffs ! 5 * y state ! 2;
          ya = (y state)[2 := y state ! 1];
          yb = ya[1 := ya ! 0];
          yc = yb[0 := output]
      in (output, filter_states[section := \<lparr>x = xc, y = yc\<rparr>]))"

text \<open>\<^verbatim>\<open>apply_highpass_filter\<close> (lines 100-109): the loop over the sections 0, 1, 2.\<close>

definition apply_highpass_filter :: "real \<Rightarrow> biquad_state_t list \<Rightarrow> real \<times> biquad_state_t list" where
  "apply_highpass_filter input filter_states =
     foldl (\<lambda>(output, sts) i. apply_biquad output i sts) (input, filter_states) [0..<3]"

text \<open>The filter applied to a sequence of power samples: the outputs, in order.\<close>

fun highpass_run :: "real list \<Rightarrow> biquad_state_t list \<Rightarrow> real list" where
  "highpass_run [] sts = []"
| "highpass_run (p # ps) sts =
     (let (out, sts') = apply_highpass_filter p sts in out # highpass_run ps sts')"

text \<open>One section alone applied to a sequence of samples.\<close>

fun biquad_run :: "nat \<Rightarrow> real list \<Rightarrow> biquad_state_t list \<Rightarrow> real list" where
  "biquad_run section [] sts = []"
| "biquad_run section (p # ps) sts =
     (let (out, sts') = apply_biquad p section sts in out # biquad_run section ps sts')"

text \<open>
  The filter fed the constant \<open>c\<close> for ever: the filter state before the \<open>n\<close>-th call
  and the output of the \<open>n\<close>-th call (counting from 0).
\<close>

primrec highpass_const_state :: "real \<Rightarrow> nat \<Rightarrow> biquad_state_t list" where
  "highpass_const_state c 0 = filter_states_init"
| "highpass_const_state c (Suc n) = snd (apply_highpass_filter c (highpass_const_state c n))"

definition highpass_const_output :: "real \<Rightarrow> nat \<Rightarrow> real" where
  "highpass_const_output c n = fst (apply_highpass_filter c (highpass_const_state c n))"

section \<open>The filter library (nilm_filters.h, nilm_filters.c)\<close>

text \<open>\<^verbatim>\<open>biquad_section_t\<close>: five coefficients and the two delay values.\<close>

record biquad_section_t =
  b0 :: real
  b1 :: real
  b2 :: real
  a1 :: real
  a2 :: real
  w1 :: real
  w2 :: real

text \<open>\<^verbatim>\<open>apply_biquad_section\<close> (nilm_filters.c, lines 19-28).\<close>

definition apply_biquad_section :: "real \<Rightarrow> biquad_section_t \<Rightarrow> real \<times> biquad_section_t" where
  "apply_biquad_section input section =
     (let output = b0 section * input + w1 section;
          sa = section\<lparr>w1 := b1 section * input - a1 section * output + w2 section\<rparr>;
          sb = sa\<lparr>w2 := b2 section * input - a2 section * output\<rparr>
      in (output, sb))"

definition HP_FILTER_SECTIONS :: nat where
  "HP_FILTER_SECTIONS = 3"

text \<open>The library's \<^verbatim>\<open>apply_highpass_filter\<close> (nilm_filters.c, lines 37-46).\<close>

definition apply_highpass_filter_lib ::
    "real \<Rightarrow> biquad_section_t list \<Rightarrow> real \<times> biquad_section_t list" where
  "apply_highpass_filter_lib input sections =
     foldl (\<lambda>(output, secs) i.
              let (out, sec') = apply_biquad_section output (secs ! i)
              in (out, secs[i := sec']))
       (input, sections) [0..<HP_FILTER_SECTIONS]"

fun section_run :: "real list \<Rightarrow> biquad_section_t \<Rightarrow> real list" where
  "section_run [] sec = []"
| "section_run (p # ps) sec =
     (let (out, sec') = apply_biquad_section p sec in out # section_run ps sec')"

text \<open>
  A library section holding the coefficients of row \<open>i\<close> of the main pipeline's table
  (\<^verbatim>\<open>a0\<close>, the entry at index 3, is 1 and has no field), with zero delay values as
  \<^verbatim>\<open>init_filter_sections\<close> and \<^verbatim>\<open>reset_filter_states\<close> leave them.
\<close>

definition section_of_row :: "nat \<Rightarrow> biquad_section_t" where
  "section_of_row i =
     (let c = filter_coeffs ! i
      in \<lparr>b0 = c ! 0, b1 = c ! 1, b2 = c ! 2, a1 = c ! 4, a2 = c ! 5, w1 = 0, w2 = 0\<rparr>)"

section \<open>The filter as the specification words it\<close>

text \<open>
  The specification's contract for one section, from its three equations: the state is
  the pair \<open>(w1, w2)\<close>, the coefficients the tuple \<open>(b0, b1, b2, a1, a2)\<close>.
\<close>

definition spec_biquad ::
    "real \<times> real \<times> real \<times> real \<times> real \<Rightarrow> real \<Rightarrow> real \<times> real \<Rightarrow> real \<times> (real \<times> real)" where
  "spec_biquad cf input w =
     (case cf of (cb0, cb1, cb2, ca1, ca2) \<Rightarrow>
        let output = cb0 * input + fst w;
            w1_next = cb1 * input - ca1 * output + snd w;
            w2_next = cb2 * input - ca2 * output
        in (output, (w1_next, w2_next)))"

text \<open>The coefficient tuple of row \<open>i\<close> of the main pipeline's table.\<close>

definition spec_coeffs :: "nat \<Rightarrow> real \<times> real \<times> real \<times> real \<times> real" where
  "spec_coeffs i =
     (let c = filter_coeffs ! i in (c ! 0, c ! 1, c ! 2, c ! 4, c ! 5))"

text \<open>Three sections in series; the state is one pair per section.\<close>

definition spec_filter ::
    "real \<Rightarrow> (real \<times> real) \<times> (real \<times> real) \<times> (real \<times> real) \<Rightarrow>
     real \<times> ((real \<times> real) \<times> (real \<times> real) \<times> (real \<times> real))" where
  "spec_filter input ws =
     (case ws of (wa, wb, wc) \<Rightarrow>
        let (oa, wa') = spec_biquad (spec_coeffs 0) input wa;
            (ob, wb') = spec_biquad (spec_coeffs 1) oa wb;
            (oc, wc') = spec_biquad (spec_coeffs 2) ob wc
        in (oc, (wa', wb', wc')))"

fun spec_filter_run ::
    "real list \<Rightarrow> (real \<times> real) \<times> (real \<times> real) \<times> (real \<times> real) \<Rightarrow> real list" where
  "spec_filter_run [] ws = []"
| "spec_filter_run (p # ps) ws =
     (let (out, ws') = spec_filter p ws in out # spec_filter_run ps ws')"

section \<open>Baseline estimator (main_NILM_Event_Detector.c, nilmTask)\<close>

definition POWER_BUFFER_SIZE :: nat where
  "POWER_BUFFER_SIZE = 100"

text \<open>
  \<^verbatim>\<open>power_buffer\<close>, \<^verbatim>\<open>power_index\<close> (a \<^verbatim>\<open>uint32_t\<close> that the modulo keeps below 100),
  \<^verbatim>\<open>power_buffer_full\<close> and \<^verbatim>\<open>baseline_power\<close>.
\<close>

record baseline_state =
  power_buffer :: "real list"
  power_index :: nat
  power_buffer_full :: bool
  baseline_power :: real

definition baseline_init :: baseline_state where
  "baseline_init = \<lparr>power_buffer = replicate POWER_BUFFER_SIZE 0, power_index = 0,
                    power_buffer_full = False, baseline_power = 0\<rparr>"

text \<open>The summing loop of lines 229-232.\<close>

definition buffer_sum :: "real list \<Rightarrow> real" where
  "buffer_sum buf = foldl (\<lambda>sum i. sum + buf ! i) 0 [0..<POWER_BUFFER_SIZE]"

text \<open>Lines 222-234: store the sample, advance the cursor, recompute the baseline.\<close>

definition store_power :: "real \<Rightarrow> baseline_state \<Rightarrow> baseline_state" where
  "store_power current_power st =
     (let st1 = st\<lparr>power_buffer := (power_buffer st)[power_index st := current_power]\<rparr>;
          st2 = st1\<lparr>power_index := (power_index st1 + 1) mod POWER_BUFFER_SIZE\<rparr>;
          st3 = (if power_index st2 = 0 then st2\<lparr>power_buffer_full := True\<rparr> else st2)
      in if power_buffer_full st3
         then st3\<lparr>baseline_power := buffer_sum (power_buffer st3) / real POWER_BUFFER_SIZE\<rparr>
         else st3)"

text \<open>The samples of a run, stored one after the other.\<close>

definition store_all :: "real list \<Rightarrow> baseline_state \<Rightarrow> baseline_state" where
  "store_all ps st = foldl (\<lambda>s p. store_power p s) st ps"

text \<open>
  The buffer read from the cursor onwards and around: the slot under the cursor is the
  one written longest ago.
\<close>

definition window :: "baseline_state \<Rightarrow> real list" where
  "window st = drop (power_index st) (power_buffer st) @ take (power_index st) (power_buffer st)"

section \<open>Event detector (main_NILM_Event_Detector.c, detect_events)\<close>

definition EVENT_THRESHOLD :: real where
  "EVENT_THRESHOLD = 50"

definition DEBOUNCE_TIME_MS :: "32 word" where
  "DEBOUNCE_TIME_MS = 2000"

text \<open>What the log line of an accepted detection reports.\<close>

record event_record =
  event_type :: string
  device_type :: string
  event_power :: real
  event_delta :: real

text \<open>
  \<^verbatim>\<open>detect_events\<close> (lines 120-155). \<open>current_time\<close> is the value of line 121, the tick
  count times the tick period as a \<^verbatim>\<open>uint32_t\<close>; the scheduler supplies it. The state
  is \<^verbatim>\<open>last_event_time\<close>, a \<^verbatim>\<open>uint32_t\<close>: the subtraction wraps around and the comparison
  is unsigned.
\<close>

definition detect_events ::
    "32 word \<Rightarrow> real \<Rightarrow> real \<Rightarrow> 32 word \<Rightarrow> event_record option \<times> 32 word" where
  "detect_events current_time current_power filtered_power last_event_time =
     (if current_time - last_event_time < DEBOUNCE_TIME_MS then (None, last_event_time)
      else if \<bar>filtered_power\<bar> > EVENT_THRESHOLD then
        (Some \<lparr>event_type = (if filtered_power > 0 then ''ON'' else ''OFF''),
               device_type =
                 (if filtered_power > 0 then
                    (if current_power > 2000 then ''heating''
                     else if current_power > 500 then ''appliance''
                     else if current_power > 100 then ''lighting''
                     else ''small_load'')
                  else ''unknown''),
               event_power = current_power,
               event_delta = filtered_power\<rparr>,
         current_time)
      else (None, last_event_time))"

text \<open>\<^verbatim>\<open>last_event_time\<close> is initialised to 0.\<close>

definition last_event_time_init :: "32 word" where
  "last_event_time_init = 0"

text \<open>
  The detector over the ticks of a run, each tick a triple of the time, the power and
  the filtered power: the events reported, in order, and the final \<^verbatim>\<open>last_event_time\<close>.
\<close>

fun detect_run :: "(32 word \<times> real \<times> real) list \<Rightarrow> 32 word \<Rightarrow> event_record list \<times> 32 word" where
  "detect_run [] last_event_time = ([], last_event_time)"
| "detect_run ((t, p, f) # ticks) last_event_time =
     (let (ev, last') = detect_events t p f last_event_time;
          (evs, last'') = detect_run ticks last'
      in ((case ev of None \<Rightarrow> [] | Some e \<Rightarrow> [e]) @ evs, last''))"

section \<open>Invariants of the main pipeline's filter on a constant input\<close>

text \<open>
  The sign pattern of one section's histories when the samples it is fed alternate in
  sign: \<open>pos\<close> tells that the sample processed last was non-negative.
\<close>

definition alternating :: "bool \<Rightarrow> biquad_state_t \<Rightarrow> bool" where
  "alternating pos st =
     (length (x st) = 3 \<and> length (y st) = 3 \<and>
      (if pos
       then 0 \<le> x st ! 0 \<and> x st ! 1 \<le> 0 \<and> 0 \<le> y st ! 0 \<and> y st ! 1 \<le> 0 \<and> 0 \<le> y st ! 2
       else x st ! 0 \<le> 0 \<and> 0 \<le> x st ! 1 \<and> y st ! 0 \<le> 0 \<and> 0 \<le> y st ! 1 \<and> y st ! 2 \<le> 0))"

text \<open>
  The first section on the constant input 1: both inputs it remembers are 1, and its
  last two outputs alternate in sign with magnitudes at least \<open>7/5 * m\<close> and \<open>m\<close>.
\<close>

definition first_growing :: "real \<Rightarrow> bool \<Rightarrow> biquad_state_t \<Rightarrow> bool" where
  "first_growing m pos st =
     (length (x st) = 3 \<and> length (y st) = 3 \<and> x st ! 0 = 1 \<and> x st ! 1 = 1 \<and> 0 \<le> m \<and>
      (if pos
       then 7 / 5 * m \<le> y st ! 0 \<and> y st ! 1 \<le> - m \<and> 0 \<le> y st ! 2
       else y st ! 0 \<le> - (7 / 5 * m) \<and> m \<le> y st ! 1 \<and> y st ! 2 \<le> 0))"

text \<open>The three sections together.\<close>

definition cascade_inv :: "real \<Rightarrow> bool \<Rightarrow> biquad_state_t list \<Rightarrow> bool" where
  "cascade_inv m pos sts =
     (length sts = 3 \<and> first_growing m pos (sts ! 0) \<and>
      alternating pos (sts ! 1) \<and> alternating pos (sts ! 2))"

text \<open>
  The filter is linear: a state scaled by \<open>c\<close>, and the shape every state of a run has.
\<close>

definition scale_state :: "real \<Rightarrow> biquad_state_t \<Rightarrow> biquad_state_t" where
  "scale_state c st = \<lparr>x = map ((*) c) (x st), y = map ((*) c) (y st)\<rparr>"

definition well_formed :: "biquad_state_t list \<Rightarrow> bool" where
  "well_formed sts =
     (length sts = 3 \<and>
      length (x (sts ! 0)) = 3 \<and> length (y (sts ! 0)) = 3 \<and>
      length (x (sts ! 1)) = 3 \<and> length (y (sts ! 1)) = 3 \<and>
      length (x (sts ! 2)) = 3 \<and> length (y (sts ! 2)) = 3)"


section \<open>Properties of the device classifier\<close>

lemma scan_device_table_find:
  "scan_device_table p es = map_option type (find (in_range p) es)"
  by (induction es) (simp_all add: in_range_def)

lemma scan_device_table_None:
  "scan_device_table p es = None \<longleftrightarrow> (\<forall>e \<in> set es. \<not> in_range p e)"
  by (induction es) (simp_all add: in_range_def)

lemma scan_device_table_first:
  "i < length es \<Longrightarrow> in_range p (es ! i) \<Longrightarrow> (\<forall>j<i. \<not> in_range p (es ! j)) \<Longrightarrow>
   scan_device_table p es = Some (type (es ! i))"
proof (induction es arbitrary: i)
  case Nil
  then show ?case by simp
next
  case (Cons e es)
  show ?case
  proof (cases i)
    case 0
    with Cons.prems show ?thesis by (simp add: in_range_def)
  next
    case (Suc k)
    with Cons.prems have "\<not> in_range p e" by auto
    then have skip: "scan_device_table p (e # es) = scan_device_table p es"
      by (auto simp add: in_range_def)
    from Suc Cons.prems have "\<forall>j<k. \<not> in_range p (es ! j)" by auto
    with Suc Cons.prems have "scan_device_table p es = Some (type (es ! k))"
      by (intro Cons.IH) auto
    with skip Suc show ?thesis
      by (simp del: scan_device_table.simps)
  qed
qed

text \<open>
  Claim C5 says that \<^verbatim>\<open>classify(150.0)\<close> is Computer. It is not: the row Television,
  with the range [50, 200], is declared before the row Computer.
\<close>

theorem classify_150_not_computer:
  "classify_device_by_power 150 \<noteq> DEVICE_COMPUTER"
  by (simp add: classify_device_by_power_def device_table_def)

text \<open>
  Claim C5, amended: \<^verbatim>\<open>classify(150.0)\<close> over the table of the header returns the first
  row in declared order whose inclusive range holds 150, which is Television; and for
  every input the first row in declared order whose inclusive range holds the
  magnitude decides the result.
\<close>

theorem classify_first_match:
  "classify_device_by_power 150 = DEVICE_TV \<and>
   (\<forall>d i. i < length device_table \<and> in_range \<bar>d\<bar> (device_table ! i) \<and>
          (\<forall>j<i. \<not> in_range \<bar>d\<bar> (device_table ! j))
      \<longrightarrow> classify_device_by_power d = type (device_table ! i))"
proof (intro conjI allI impI)
  show "classify_device_by_power 150 = DEVICE_TV"
    by (simp add: classify_device_by_power_def device_table_def)
next
  fix d i
  assume "i < length device_table \<and> in_range \<bar>d\<bar> (device_table ! i) \<and>
          (\<forall>j<i. \<not> in_range \<bar>d\<bar> (device_table ! j))"
  then have "scan_device_table \<bar>d\<bar> device_table = Some (type (device_table ! i))"
    by (intro scan_device_table_first) auto
  then show "classify_device_by_power d = type (device_table ! i)"
    by (simp add: classify_device_by_power_def)
qed

theorem classify_first_match_witness:
  "(1::nat) < length device_table \<and> in_range \<bar>150\<bar> (device_table ! 1) \<and>
   \<not> in_range \<bar>150\<bar> (device_table ! 0) \<and>
   classify_device_by_power 150 = type (device_table ! 1) \<and>
   type (device_table ! 1) = DEVICE_TV"
proof -
  have h: "(1::nat) < length device_table \<and> in_range \<bar>150\<bar> (device_table ! 1) \<and>
   (\<forall>j<(1::nat). \<not> in_range \<bar>150\<bar> (device_table ! j))"
    by (simp add: device_table_def in_range_def)
  have t: "type (device_table ! 1) = DEVICE_TV"
    by (simp add: device_table_def)
  from classify_first_match have
    "classify_device_by_power 150 = type (device_table ! 1)"
    using h by blast
  with h t show ?thesis by simp
qed

text \<open>
  Claim C6: the classifier is a total function into the device categories, and when no
  row's range holds the magnitude of the input it returns \<open>DEVICE_OTHER\<close> if the
  magnitude exceeds 50 and \<open>DEVICE_UNKNOWN\<close> otherwise.
\<close>

theorem classify_no_match:
  "(\<forall>e \<in> set device_table. \<not> in_range \<bar>d\<bar> e) \<Longrightarrow>
   classify_device_by_power d = (if \<bar>d\<bar> > 50 then DEVICE_OTHER else DEVICE_UNKNOWN)"
proof -
  assume "\<forall>e \<in> set device_table. \<not> in_range \<bar>d\<bar> e"
  then have "scan_device_table \<bar>d\<bar> device_table = None"
    by (simp only: scan_device_table_None)
  then show ?thesis by (simp add: classify_device_by_power_def)
qed

theorem classify_no_match_witness:
  "list_all (\<lambda>e. \<not> in_range \<bar>450\<bar> e) device_table \<and>
   classify_device_by_power 450 = DEVICE_OTHER \<and>
   list_all (\<lambda>e. \<not> in_range \<bar>2\<bar> e) device_table \<and>
   classify_device_by_power 2 = DEVICE_UNKNOWN"
proof -
  have a: "\<forall>e \<in> set device_table. \<not> in_range \<bar>450\<bar> e"
    by (simp add: device_table_def in_range_def)
  have b: "\<forall>e \<in> set device_table. \<not> in_range \<bar>2\<bar> e"
    by (simp add: device_table_def in_range_def)
  show ?thesis
    using a b classify_no_match [OF a] classify_no_match [OF b]
    by (simp add: list_all_iff)
qed

text \<open>
  Claim C10: the classifier gives the same category for a power delta and for its
  negation.
\<close>

theorem classify_sign_symmetric:
  "classify_device_by_power (- d) = classify_device_by_power d"
  by (simp add: classify_device_by_power_def)

section \<open>The two realisations of a section\<close>

lemma list3: "length xs = 3 \<Longrightarrow> \<exists>a b c. xs = [a, b, c]"
  by (auto simp: numeral_3_eq_3 length_Suc_conv)

lemma filter_coeffs_rows:
  "filter_coeffs ! 0 = [0.999001949317, -1.998003898634, 0.999001949317, 1.0, -1.998001949634, 0.998005898268]"
  "filter_coeffs ! Suc 0 = [1.000000000000, -2.000000000000, 1.000000000000, 1.0, -1.997003947368, 0.997005896736]"
  "filter_coeffs ! 2 = [1.000000000000, -2.000000000000, 1.000000000000, 1.0, -1.996007894737, 0.996009844211]"
  by (simp_all add: filter_coeffs_def)

lemma filter_coeffs_row_2':
  "filter_coeffs ! Suc (Suc 0) = [1.000000000000, -2.000000000000, 1.000000000000, 1.0, -1.996007894737, 0.996009844211]"
  by (simp add: filter_coeffs_def)

lemma apply_highpass_filter_unfold:
  "apply_highpass_filter input sts =
     (let (oa, sa) = apply_biquad input 0 sts;
          (ob, sb) = apply_biquad oa 1 sa;
          (oc, sc) = apply_biquad ob 2 sb
      in (oc, sc))"
  by (simp add: apply_highpass_filter_def eval_nat_numeral split_def Let_def)


text \<open>
  The library's section is the specification's section, and the library's filter is
  three of them in series.
\<close>

lemma apply_biquad_section_spec:
  "apply_biquad_section input sec =
     (fst (spec_biquad (b0 sec, b1 sec, b2 sec, a1 sec, a2 sec) input (w1 sec, w2 sec)),
      sec\<lparr>w1 := fst (snd (spec_biquad (b0 sec, b1 sec, b2 sec, a1 sec, a2 sec) input (w1 sec, w2 sec))),
          w2 := snd (snd (spec_biquad (b0 sec, b1 sec, b2 sec, a1 sec, a2 sec) input (w1 sec, w2 sec)))\<rparr>)"
  by (simp add: apply_biquad_section_def spec_biquad_def Let_def)

lemma apply_highpass_filter_lib_series:
  "apply_highpass_filter_lib input [sa, sb, sc] =
     (let (oa, sa') = apply_biquad_section input sa;
          (ob, sb') = apply_biquad_section oa sb;
          (oc, sc') = apply_biquad_section ob sc
      in (oc, [sa', sb', sc']))"
  by (simp add: apply_highpass_filter_lib_def HP_FILTER_SECTIONS_def eval_nat_numeral
      split_def Let_def)

lemma spec_coeffs_rows:
  "spec_coeffs 0 = (0.999001949317, -1.998003898634, 0.999001949317, -1.998001949634, 0.998005898268)"
  "spec_coeffs (Suc 0) = (1, -2, 1, -1.997003947368, 0.997005896736)"
  "spec_coeffs 2 = (1, -2, 1, -1.996007894737, 0.996009844211)"
  by (simp_all add: spec_coeffs_def filter_coeffs_rows Let_def)

text \<open>
  Claim C2 says that the filter runs the sample through three sections in series, each
  in Direct-Form-II-Transposed form with two state values. The filter the pipeline
  calls keeps three past inputs and three past outputs per section, and its outputs are
  not those of the transposed form with the same coefficients: on the samples 1, 0 from
  the zero state the second outputs differ.
\<close>

theorem highpass_filter_not_transposed_form:
  "highpass_run [1, 0] filter_states_init =
     [999001949317 / 1000000000000, - (2997005847951 / 500000000000)] \<and>
   spec_filter_run [1, 0] ((0, 0), (0, 0), (0, 0)) =
     [999001949317 / 1000000000000,
      - (8977239569707528707737 / 1000000000000000000000000)] \<and>
   highpass_run [1, 0] filter_states_init \<noteq> spec_filter_run [1, 0] ((0, 0), (0, 0), (0, 0))"
proof -
  have m: "highpass_run [1, 0] filter_states_init =
     [999001949317 / 1000000000000, - (2997005847951 / 500000000000)]"
    by (simp add: filter_states_init_def apply_highpass_filter_unfold apply_biquad_def
        Let_def filter_coeffs_rows filter_coeffs_row_2' eval_nat_numeral)
  have s: "spec_filter_run [1, 0] ((0, 0), (0, 0), (0, 0)) =
     [999001949317 / 1000000000000,
      - (8977239569707528707737 / 1000000000000000000000000)]"
    by (simp add: spec_filter_def spec_biquad_def spec_coeffs_rows Let_def)
  show ?thesis unfolding m s by simp
qed

text \<open>
  Claim C9 says that \<^verbatim>\<open>apply_biquad\<close> of the main pipeline and \<^verbatim>\<open>apply_biquad_section\<close>
  of the library give the same outputs from the zero state for the same coefficients.
  With the coefficients of row 0 and the samples 1, 0 the second outputs differ.
\<close>

theorem biquad_direct_form_differs:
  "biquad_run 0 [1, 0] filter_states_init =
     [999001949317 / 1000000000000, - (999001949317 / 500000000000)] \<and>
   section_run [1, 0] (section_of_row 0) =
     [999001949317 / 1000000000000,
      - (998028105233772650011 / 500000000000000000000000)] \<and>
   biquad_run 0 [1, 0] filter_states_init \<noteq> section_run [1, 0] (section_of_row 0)"
proof -
  have m: "biquad_run 0 [1, 0] filter_states_init =
     [999001949317 / 1000000000000, - (999001949317 / 500000000000)]"
    by (simp add: filter_states_init_def apply_biquad_def
        Let_def filter_coeffs_rows eval_nat_numeral)
  have s: "section_run [1, 0] (section_of_row 0) =
     [999001949317 / 1000000000000,
      - (998028105233772650011 / 500000000000000000000000)]"
    by (simp add: section_of_row_def apply_biquad_section_def filter_coeffs_rows Let_def)
  show ?thesis unfolding m s by simp
qed

section \<open>The main pipeline's filter on a constant input\<close>

lemma apply_biquad_length: "length (snd (apply_biquad input i sts)) = length sts"
  by (simp add: apply_biquad_def Let_def)

lemma apply_biquad_other:
  "j \<noteq> i \<Longrightarrow> snd (apply_biquad input i sts) ! j = sts ! j"
  by (simp add: apply_biquad_def Let_def)

lemma apply_biquad_alternating:
  assumes "i = 1 \<or> i = 2" and "i < length sts" and "alternating pos (sts ! i)"
    and "if pos then input \<le> 0 else 0 \<le> input"
  shows "alternating (\<not> pos) (snd (apply_biquad input i sts) ! i) \<and>
         (if pos then fst (apply_biquad input i sts) \<le> input
          else input \<le> fst (apply_biquad input i sts))"
proof -
  from assms(3) obtain xa xb xc ya yb yc
    where xs: "x (sts ! i) = [xa, xb, xc]" and ys: "y (sts ! i) = [ya, yb, yc]"
    using list3 unfolding alternating_def by metis
  from assms(1) show ?thesis
  proof
    assume "i = 1"
    with assms(2-4) xs ys show ?thesis
      by (cases pos) (simp_all add: alternating_def apply_biquad_def Let_def filter_coeffs_rows)
  next
    assume "i = 2"
    with assms(2-4) xs ys show ?thesis
      by (cases pos) (simp_all add: alternating_def apply_biquad_def Let_def filter_coeffs_rows)
  qed
qed

lemma apply_biquad_first_growing:
  assumes "0 < length sts" and "first_growing m pos (sts ! 0)"
  shows "first_growing (7 / 5 * m) (\<not> pos) (snd (apply_biquad 1 0 sts) ! 0) \<and>
         (if pos then fst (apply_biquad 1 0 sts) \<le> - (49 / 25 * m)
          else 49 / 25 * m \<le> fst (apply_biquad 1 0 sts))"
proof -
  from assms(2) obtain xa xb xc ya yb yc
    where xs: "x (sts ! 0) = [xa, xb, xc]" and ys: "y (sts ! 0) = [ya, yb, yc]"
    using list3 unfolding first_growing_def by metis
  with assms show ?thesis
    by (cases pos) (simp_all add: first_growing_def apply_biquad_def Let_def filter_coeffs_rows)
qed

lemma cascade_inv_step:
  assumes "cascade_inv m pos sts"
  shows "cascade_inv (7 / 5 * m) (\<not> pos) (snd (apply_highpass_filter 1 sts)) \<and>
         (if pos then fst (apply_highpass_filter 1 sts) \<le> - (49 / 25 * m)
          else 49 / 25 * m \<le> fst (apply_highpass_filter 1 sts))"
proof -
  obtain oa sa where a: "apply_biquad 1 0 sts = (oa, sa)" by (cases "apply_biquad 1 0 sts")
  obtain ob sb where b: "apply_biquad oa 1 sa = (ob, sb)" by (cases "apply_biquad oa 1 sa")
  obtain oc sc where c: "apply_biquad ob 2 sb = (oc, sc)" by (cases "apply_biquad ob 2 sb")
  from assms have len: "length sts = 3" and m0: "0 \<le> m"
    by (simp_all add: cascade_inv_def first_growing_def)
  have la: "length sa = 3" using apply_biquad_length [of 1 0 sts] a len by simp
  have lb: "length sb = 3" using apply_biquad_length [of oa 1 sa] b la by simp
  have lc: "length sc = 3" using apply_biquad_length [of ob 2 sb] c lb by simp
  have "0 < length sts" and "first_growing m pos (sts ! 0)"
    using assms len by (simp_all add: cascade_inv_def)
  from apply_biquad_first_growing [OF this]
  have fa: "first_growing (7 / 5 * m) (\<not> pos) (sa ! 0) \<and>
            (if pos then oa \<le> - (49 / 25 * m) else 49 / 25 * m \<le> oa)"
    unfolding a fst_conv snd_conv .
  have sa1: "sa ! 1 = sts ! 1" using apply_biquad_other [of 1 0 1 sts] a by simp
  have sa2: "sa ! 2 = sts ! 2" using apply_biquad_other [of 2 0 1 sts] a by simp
  have oa_sign: "if pos then oa \<le> 0 else 0 \<le> oa"
    using fa m0 by (cases pos) auto
  have "alternating pos (sa ! 1)" using assms sa1 by (simp add: cascade_inv_def)
  with apply_biquad_alternating [of 1 sa pos oa] la oa_sign
  have fb: "alternating (\<not> pos) (sb ! 1) \<and> (if pos then ob \<le> oa else oa \<le> ob)"
    unfolding b fst_conv snd_conv by simp
  have sb0: "sb ! 0 = sa ! 0" using apply_biquad_other [of 0 1 oa sa] b by simp
  have sb2: "sb ! 2 = sa ! 2" using apply_biquad_other [of 2 1 oa sa] b by simp
  have ob_sign: "if pos then ob \<le> 0 else 0 \<le> ob"
    using fb oa_sign by (cases pos) auto
  have "alternating pos (sb ! 2)" using assms sb2 sa2 by (simp add: cascade_inv_def)
  with apply_biquad_alternating [of 2 sb pos ob] lb ob_sign
  have fc: "alternating (\<not> pos) (sc ! 2) \<and> (if pos then oc \<le> ob else ob \<le> oc)"
    unfolding c fst_conv snd_conv by simp
  have sc0: "sc ! 0 = sb ! 0" using apply_biquad_other [of 0 2 ob sb] c by simp
  have sc1: "sc ! 1 = sb ! 1" using apply_biquad_other [of 1 2 ob sb] c by simp
  have b': "apply_biquad oa (Suc 0) sa = (ob, sb)" using b by simp
  have res: "apply_highpass_filter 1 sts = (oc, sc)"
    by (simp add: apply_highpass_filter_unfold a b' c)
  have inv: "cascade_inv (7 / 5 * m) (\<not> pos) sc"
    using lc fa fb fc sc0 sc1 sb0 by (simp add: cascade_inv_def)
  have out: "if pos then oc \<le> - (49 / 25 * m) else 49 / 25 * m \<le> oc"
    using fa fb fc by (cases pos) auto
  from inv out show ?thesis unfolding res fst_conv snd_conv by (rule conjI)
qed

lemma highpass_const_state_2:
  "cascade_inv (7 / 10) False (highpass_const_state 1 (Suc (Suc 0)))"
  by (simp add: cascade_inv_def first_growing_def alternating_def filter_states_init_def
      apply_highpass_filter_unfold apply_biquad_def Let_def filter_coeffs_rows
      filter_coeffs_row_2' eval_nat_numeral)

lemma highpass_const_inv:
  "cascade_inv (7 / 10 * (7 / 5) ^ n) (odd n) (highpass_const_state 1 (Suc (Suc n)))"
proof (induction n)
  case 0
  show ?case using highpass_const_state_2 by simp
next
  case (Suc n)
  from cascade_inv_step [OF Suc]
  have "cascade_inv (7 / 5 * (7 / 10 * (7 / 5) ^ n)) (\<not> odd n)
          (highpass_const_state 1 (Suc (Suc (Suc n))))"
    by simp
  then show ?case by (simp add: mult.commute mult.left_commute)
qed

lemma highpass_const_output_late:
  "(7 / 5) ^ Suc (Suc n) / 2 \<le> \<bar>highpass_const_output 1 (Suc (Suc n))\<bar>"
proof -
  from cascade_inv_step [OF highpass_const_inv [of n]]
  have "if odd n then highpass_const_output 1 (Suc (Suc n)) \<le> - (49 / 25 * (7 / 10 * (7 / 5) ^ n))
        else 49 / 25 * (7 / 10 * (7 / 5) ^ n) \<le> highpass_const_output 1 (Suc (Suc n))"
    unfolding highpass_const_output_def by (rule conjunct2)
  then have "49 / 25 * (7 / 10 * (7 / 5) ^ n) \<le> \<bar>highpass_const_output 1 (Suc (Suc n))\<bar>"
    by (cases "odd n") auto
  moreover have "(7 / 5 :: real) ^ Suc (Suc n) / 2 \<le> 49 / 25 * (7 / 10 * (7 / 5) ^ n)"
    by simp
  ultimately show ?thesis by linarith
qed

lemma highpass_const_output_0: "highpass_const_output 1 0 = 999001949317 / 1000000000000"
  by (simp add: highpass_const_output_def filter_states_init_def
      apply_highpass_filter_unfold apply_biquad_def Let_def filter_coeffs_rows
      filter_coeffs_row_2' eval_nat_numeral)

lemma highpass_const_output_1: "highpass_const_output 1 (Suc 0) = - (4995009746585 / 1000000000000)"
  by (simp add: highpass_const_output_def filter_states_init_def
      apply_highpass_filter_unfold apply_biquad_def Let_def filter_coeffs_rows
      filter_coeffs_row_2' eval_nat_numeral)

lemma highpass_const_output_grows:
  "(7 / 5) ^ n / 2 \<le> \<bar>highpass_const_output 1 n\<bar>"
proof -
  consider "n = 0" | "n = Suc 0" | k where "n = Suc (Suc k)"
    by (metis not0_implies_Suc)
  then show ?thesis
  proof cases
    case 1
    then show ?thesis by (simp add: highpass_const_output_0)
  next
    case 2
    then show ?thesis by (simp add: highpass_const_output_1)
  next
    case 3
    then show ?thesis using highpass_const_output_late [of k] by simp
  qed
qed

text \<open>
  Claim C8 says that a constant input drives the output of the cascade to zero. The
  filter of the main pipeline does the opposite: on the constant input 1, from the
  zero state, the magnitude of the \<open>n\<close>-th output is at least \<open>(7/5) ^ n / 2\<close>, so the
  outputs grow without bound and do not converge to 0.
\<close>

theorem highpass_constant_input_diverges:
  "(\<forall>n. (7 / 5) ^ n / 2 \<le> \<bar>highpass_const_output 1 n\<bar>) \<and>
   \<not> (highpass_const_output 1 \<longlonglongrightarrow> 0)"
proof
  show a: "\<forall>n. (7 / 5) ^ n / 2 \<le> \<bar>highpass_const_output 1 n\<bar>"
    using highpass_const_output_grows by blast
  show "\<not> (highpass_const_output 1 \<longlonglongrightarrow> 0)"
  proof
    assume "highpass_const_output 1 \<longlonglongrightarrow> 0"
    then obtain N where N: "\<forall>n\<ge>N. \<bar>highpass_const_output 1 n\<bar> < 1 / 2"
      by (auto simp: lim_sequentially dist_real_def dest!: spec [of _ "1 / 2"])
    have "(1::real) \<le> (7 / 5) ^ N" by (rule one_le_power) simp
    with a have "1 / 2 \<le> \<bar>highpass_const_output 1 N\<bar>"
      by (metis (no_types) divide_right_mono order_trans zero_le_numeral)
    with N show False by (auto simp: not_less [symmetric])
  qed
qed

text \<open>
  The same holds for every constant input but 0: the filter is linear, so the outputs on
  the constant \<open>c\<close> are \<open>c\<close> times those on the constant 1.
\<close>

lemma well_formed_init: "well_formed filter_states_init"
  by (simp add: well_formed_def filter_states_init_def eval_nat_numeral)

lemma less_3_cases: "i < 3 \<Longrightarrow> i = 0 \<or> i = 1 \<or> i = (2::nat)"
  by arith

lemma apply_biquad_well_formed:
  assumes "well_formed sts" and "i < 3"
  shows "well_formed (snd (apply_biquad input i sts))"
  using less_3_cases [OF assms(2)] assms(1)
  by (auto simp: well_formed_def apply_biquad_def Let_def)

lemma apply_biquad_scale:
  assumes "well_formed sts" and "i < 3"
  shows "apply_biquad (c * input) i (map (scale_state c) sts) =
         (c * fst (apply_biquad input i sts), map (scale_state c) (snd (apply_biquad input i sts)))"
proof -
  from assms less_3_cases [OF assms(2)] have len: "length sts = 3" and i: "i < length sts"
    and lx: "length (x (sts ! i)) = 3" and ly: "length (y (sts ! i)) = 3"
    by (auto simp: well_formed_def)
  from lx ly obtain xa xb xc ya yb yc
    where xs: "x (sts ! i) = [xa, xb, xc]" and ys: "y (sts ! i) = [ya, yb, yc]"
    using list3 by metis
  show ?thesis
    using i xs ys
    by (simp add: apply_biquad_def Let_def scale_state_def map_update algebra_simps)
qed

lemma apply_highpass_filter_well_formed:
  "well_formed sts \<Longrightarrow> well_formed (snd (apply_highpass_filter input sts))"
  by (simp add: apply_highpass_filter_unfold split_def Let_def apply_biquad_well_formed)

lemma apply_highpass_filter_scale:
  assumes "well_formed sts"
  shows "apply_highpass_filter (c * input) (map (scale_state c) sts) =
         (c * fst (apply_highpass_filter input sts),
          map (scale_state c) (snd (apply_highpass_filter input sts)))"
proof -
  have a: "well_formed (snd (apply_biquad input 0 sts))"
    using assms by (rule apply_biquad_well_formed) simp
  have b: "well_formed (snd (apply_biquad (fst (apply_biquad input 0 sts)) 1
                          (snd (apply_biquad input 0 sts))))"
    using a by (rule apply_biquad_well_formed) simp
  show ?thesis
    using apply_biquad_scale [OF assms, of 0 c input]
      apply_biquad_scale [OF a, of 1 c "fst (apply_biquad input 0 sts)"]
      apply_biquad_scale [OF b, of 2 c "fst (apply_biquad (fst (apply_biquad input 0 sts)) 1
                          (snd (apply_biquad input 0 sts)))"]
    by (simp add: apply_highpass_filter_unfold split_def Let_def)
qed

lemma highpass_const_state_well_formed: "well_formed (highpass_const_state c n)"
  by (induction n) (simp_all add: well_formed_init apply_highpass_filter_well_formed)

lemma scale_state_init: "map (scale_state c) filter_states_init = filter_states_init"
  by (simp add: filter_states_init_def scale_state_def)

lemma highpass_const_state_scale:
  "highpass_const_state c n = map (scale_state c) (highpass_const_state 1 n)"
proof (induction n)
  case 0
  show ?case by (simp add: scale_state_init)
next
  case (Suc n)
  have "apply_highpass_filter (c * 1) (map (scale_state c) (highpass_const_state 1 n)) =
         (c * fst (apply_highpass_filter 1 (highpass_const_state 1 n)),
          map (scale_state c) (snd (apply_highpass_filter 1 (highpass_const_state 1 n))))"
    by (rule apply_highpass_filter_scale) (rule highpass_const_state_well_formed)
  with Suc show ?case by simp
qed

lemma highpass_const_output_scale:
  "highpass_const_output c n = c * highpass_const_output 1 n"
proof -
  have "apply_highpass_filter (c * 1) (map (scale_state c) (highpass_const_state 1 n)) =
         (c * fst (apply_highpass_filter 1 (highpass_const_state 1 n)),
          map (scale_state c) (snd (apply_highpass_filter 1 (highpass_const_state 1 n))))"
    by (rule apply_highpass_filter_scale) (rule highpass_const_state_well_formed)
  then show ?thesis
    by (simp add: highpass_const_output_def highpass_const_state_scale [of c n])
qed

lemma highpass_const_output_any:
  "\<bar>c\<bar> * ((7 / 5) ^ n / 2) \<le> \<bar>highpass_const_output c n\<bar>"
proof -
  have "\<bar>c\<bar> * ((7 / 5) ^ n / 2) \<le> \<bar>c\<bar> * \<bar>highpass_const_output 1 n\<bar>"
    using highpass_const_output_grows [of n] by (intro mult_left_mono) simp_all
  then show ?thesis
    by (simp only: highpass_const_output_scale [of c n] abs_mult)
qed

lemma highpass_const_never_settles:
  assumes "c \<noteq> 0"
  shows "\<not> (highpass_const_output c \<longlonglongrightarrow> 0)"
proof
  assume "highpass_const_output c \<longlonglongrightarrow> 0"
  then obtain N where N: "\<forall>n\<ge>N. \<bar>highpass_const_output c n\<bar> < \<bar>c\<bar> / 2"
    using assms by (auto simp: lim_sequentially dist_real_def dest!: spec [of _ "\<bar>c\<bar> / 2"])
  have "(1::real) \<le> (7 / 5) ^ N" by (rule one_le_power) simp
  then have "\<bar>c\<bar> * (1 / 2) \<le> \<bar>c\<bar> * ((7 / 5) ^ N / 2)"
    by (intro mult_left_mono) simp_all
  with highpass_const_output_any [of c N] have "\<bar>c\<bar> / 2 \<le> \<bar>highpass_const_output c N\<bar>"
    by simp
  with N show False by (auto simp: not_less [symmetric])
qed

section \<open>The decimator over one period\<close>

lemma cb_samples_append:
  "cb_samples (sa @ sb) st =
     (fst (cb_samples sb (fst (cb_samples sa st))),
      snd (cb_samples sa st) @ snd (cb_samples sb (fst (cb_samples sa st))))"
  by (induction sa arbitrary: st) (simp_all add: split_def Let_def)

lemma channel_volts_Cons:
  "channel_volts ch (smp # smps) =
     (if fst smp = ch then [real (snd smp) * 3.3 / 4095] else []) @ channel_volts ch smps"
  by (simp add: channel_volts_def)

lemma cb_sample_eq:
  assumes "voltage_sum st = [a, b]" and "decimation_counter st + 1 < 2 ^ 32"
  shows "cb_sample smp st =
     (let a' = a + sum_list (channel_volts ADC1_CHANNEL_4 [smp]);
          b' = b + sum_list (channel_volts ADC1_CHANNEL_5 [smp])
      in if DECIMATION_FACTOR \<le> decimation_counter st + 1
         then (st\<lparr>voltage_sum := [0, 0], decimation_counter := 0,
                   voltage := [a' / real DECIMATION_FACTOR, b' / real DECIMATION_FACTOR],
                   New_ADC_data := True\<rparr>, True)
         else (st\<lparr>voltage_sum := [a', b'],
                   decimation_counter := decimation_counter st + 1\<rparr>, False))"
proof -
  have m: "(decimation_counter st + 1) mod 4294967296 = decimation_counter st + 1"
    "Suc (decimation_counter st) mod 4294967296 = Suc (decimation_counter st)"
    using assms(2) by simp_all
  consider "fst smp = ADC1_CHANNEL_4" | "fst smp = ADC1_CHANNEL_5" |
    "fst smp \<noteq> ADC1_CHANNEL_4" "fst smp \<noteq> ADC1_CHANNEL_5"
    by blast
  then show ?thesis
  proof cases
    case 1
    then have "fst smp \<noteq> ADC1_CHANNEL_5"
      by (simp add: ADC1_CHANNEL_4_def ADC1_CHANNEL_5_def)
    with 1 show ?thesis
      unfolding cb_sample_def Let_def channel_volts_def
      by (auto intro!: cb_state.equality simp: assms(1) m)
  next
    case 2
    then have "fst smp \<noteq> ADC1_CHANNEL_4"
      by (simp add: ADC1_CHANNEL_4_def ADC1_CHANNEL_5_def)
    with 2 show ?thesis
      unfolding cb_sample_def Let_def channel_volts_def
      by (auto intro!: cb_state.equality simp: assms(1) m)
  next
    case 3
    then show ?thesis
      unfolding cb_sample_def Let_def channel_volts_def
      by (auto intro!: cb_state.equality simp: assms(1) m)
  qed
qed


lemma cb_samples_below:
  "voltage_sum st = [a, b] \<Longrightarrow>
   decimation_counter st + length smps < DECIMATION_FACTOR \<Longrightarrow>
   cb_samples smps st =
     (st\<lparr>voltage_sum :=
           [a + sum_list (channel_volts ADC1_CHANNEL_4 smps),
            b + sum_list (channel_volts ADC1_CHANNEL_5 smps)],
         decimation_counter := decimation_counter st + length smps\<rparr>, [])"
proof (induction smps arbitrary: st a b)
  case Nil
  then show ?case
    by (auto intro!: cb_state.equality simp: channel_volts_def)
next
  case (Cons smp smps)
  let ?a = "a + sum_list (channel_volts ADC1_CHANNEL_4 [smp])"
  let ?b = "b + sum_list (channel_volts ADC1_CHANNEL_5 [smp])"
  let ?st = "st\<lparr>voltage_sum := [?a, ?b], decimation_counter := decimation_counter st + 1\<rparr>"
  from Cons.prems have c: "\<not> DECIMATION_FACTOR \<le> decimation_counter st + 1"
    and w: "decimation_counter st + 1 < 2 ^ 32"
    by (simp_all add: DECIMATION_FACTOR_def)
  have step: "cb_sample smp st = (?st, False)"
    using cb_sample_eq [OF Cons.prems(1) w, of smp] c by (simp add: Let_def)
  have "cb_samples smps ?st =
     (?st\<lparr>voltage_sum :=
           [?a + sum_list (channel_volts ADC1_CHANNEL_4 smps),
            ?b + sum_list (channel_volts ADC1_CHANNEL_5 smps)],
         decimation_counter := decimation_counter ?st + length smps\<rparr>, [])"
    using Cons.prems by (intro Cons.IH) simp_all
  then show ?case
    by (simp add: step channel_volts_def)
qed

lemma cb_samples_period:
  assumes "length smps = DECIMATION_FACTOR"
  shows "cb_samples smps cb_init =
     (\<lparr>voltage_sum = [0, 0], decimation_counter = 0,
       voltage = [sum_list (channel_volts ADC1_CHANNEL_4 smps) / real DECIMATION_FACTOR,
                  sum_list (channel_volts ADC1_CHANNEL_5 smps) / real DECIMATION_FACTOR],
       New_ADC_data = True\<rparr>,
      [[sum_list (channel_volts ADC1_CHANNEL_4 smps) / real DECIMATION_FACTOR,
        sum_list (channel_volts ADC1_CHANNEL_5 smps) / real DECIMATION_FACTOR]])"
proof -
  from assms have ne: "smps \<noteq> []" by (auto simp: DECIMATION_FACTOR_def)
  define front where "front = butlast smps"
  define smp where "smp = last smps"
  have split: "smps = front @ [smp]" using ne by (simp add: front_def smp_def)
  have lf: "length front + 1 = DECIMATION_FACTOR" using assms split by simp
  define sa where "sa = sum_list (channel_volts ADC1_CHANNEL_4 front)"
  define sb where "sb = sum_list (channel_volts ADC1_CHANNEL_5 front)"
  define mid where "mid = \<lparr>voltage_sum = [sa, sb], decimation_counter = length front,
                            voltage = [0, 0], New_ADC_data = False\<rparr>"
  have "cb_samples front cb_init =
     (cb_init\<lparr>voltage_sum :=
           [0 + sum_list (channel_volts ADC1_CHANNEL_4 front),
            0 + sum_list (channel_volts ADC1_CHANNEL_5 front)],
         decimation_counter := decimation_counter cb_init + length front\<rparr>, [])"
    using lf by (intro cb_samples_below) (simp_all add: cb_init_def)
  then have f: "cb_samples front cb_init = (mid, [])"
    by (simp add: cb_init_def mid_def sa_def sb_def)
  have vs: "voltage_sum mid = [sa, sb]" by (simp add: mid_def)
  have w: "decimation_counter mid + 1 < 2 ^ 32"
    using lf by (simp add: mid_def DECIMATION_FACTOR_def)
  have full: "DECIMATION_FACTOR \<le> decimation_counter mid + 1"
    using lf by (simp add: mid_def)
  have sums: "sum_list (channel_volts ch (front @ [smp])) =
      sum_list (channel_volts ch front) + sum_list (channel_volts ch [smp])" for ch
    by (simp add: channel_volts_def)
  have l: "cb_sample smp mid =
     (\<lparr>voltage_sum = [0, 0], decimation_counter = 0,
       voltage = [sum_list (channel_volts ADC1_CHANNEL_4 (front @ [smp])) / real DECIMATION_FACTOR,
                  sum_list (channel_volts ADC1_CHANNEL_5 (front @ [smp])) / real DECIMATION_FACTOR],
       New_ADC_data = True\<rparr>, True)"
    using cb_sample_eq [OF vs w, of smp] full
    by (simp add: Let_def sums sa_def sb_def mid_def)
  show ?thesis
    unfolding split cb_samples_append f by (simp add: l)
qed


lemma interleaved_length:
  "length (concat (replicate n [sa, sb])) = 2 * n"
  by (induction n) simp_all

lemma interleaved_volts:
  "channel_volts ADC1_CHANNEL_4
     (concat (replicate n [(ADC1_CHANNEL_4, d), (ADC1_CHANNEL_5, e)])) =
     replicate n (real d * 3.3 / 4095)"
  "channel_volts ADC1_CHANNEL_5
     (concat (replicate n [(ADC1_CHANNEL_4, d), (ADC1_CHANNEL_5, e)])) =
     replicate n (real e * 3.3 / 4095)"
  by (induction n) (simp_all add: channel_volts_def ADC1_CHANNEL_4_def ADC1_CHANNEL_5_def)

text \<open>
  Claim C1 says that the pair emitted at the end of a decimation period holds, for each
  channel, the mean of that channel's samples. The counter that ends the period counts
  the samples of both channels together, and the sums are divided by the decimation
  factor all the same: when the two channels alternate, each with the raw value 4095
  (3.3 V), the period ends after 1000 samples per channel and the pair emitted is
  (1.65, 1.65), half the mean of either channel.
\<close>

theorem cb_samples_interleaved_half_mean:
  "snd (cb_samples (concat (replicate 1000 [(ADC1_CHANNEL_4, 4095), (ADC1_CHANNEL_5, 4095)]))
          cb_init) = [[33 / 20, 33 / 20]] \<and>
   length (channel_volts ADC1_CHANNEL_4
     (concat (replicate 1000 [(ADC1_CHANNEL_4, 4095), (ADC1_CHANNEL_5, 4095)]))) = 1000 \<and>
   length (channel_volts ADC1_CHANNEL_5
     (concat (replicate 1000 [(ADC1_CHANNEL_4, 4095), (ADC1_CHANNEL_5, 4095)]))) = 1000 \<and>
   mean (channel_volts ADC1_CHANNEL_4
     (concat (replicate 1000 [(ADC1_CHANNEL_4, 4095), (ADC1_CHANNEL_5, 4095)]))) = 33 / 10 \<and>
   mean (channel_volts ADC1_CHANNEL_5
     (concat (replicate 1000 [(ADC1_CHANNEL_4, 4095), (ADC1_CHANNEL_5, 4095)]))) = 33 / 10"
proof -
  let ?smps = "concat (replicate 1000 [(ADC1_CHANNEL_4, 4095), (ADC1_CHANNEL_5, 4095)])"
  have len: "length ?smps = DECIMATION_FACTOR"
    by (simp add: interleaved_length DECIMATION_FACTOR_def)
  have "snd (cb_samples ?smps cb_init) = [[33 / 20, 33 / 20]]"
    by (simp add: cb_samples_period [OF len] interleaved_volts sum_list_replicate
        DECIMATION_FACTOR_def)
  then show ?thesis
    by (simp add: interleaved_volts mean_def sum_list_replicate)
qed

section \<open>The baseline is the mean of a sliding window\<close>

lemma foldl_add_nth:
  "foldl (\<lambda>sum i. sum + f i) a js = a + sum_list (map f js)"
  for a :: real
  by (induction js arbitrary: a) simp_all

lemma buffer_sum_sum_list:
  "length buf = POWER_BUFFER_SIZE \<Longrightarrow> buffer_sum buf = sum_list buf"
proof -
  assume len: "length buf = POWER_BUFFER_SIZE"
  have "buffer_sum buf = sum_list (map ((!) buf) [0..<length buf])"
    by (simp add: buffer_sum_def foldl_add_nth len)
  then show ?thesis by (simp only: map_nth)
qed

lemma sum_list_rotated:
  "sum_list (drop n xs @ take n xs) = sum_list xs"
  for xs :: "real list"
  by (metis add.commute append_take_drop_id sum_list_append)

lemma sum_list_window:
  "sum_list (window st) = sum_list (power_buffer st)"
  by (simp only: window_def sum_list_rotated)

lemma tl_drop_snoc:
  "n < length xs \<Longrightarrow> tl (drop n xs) @ [p] = drop (Suc n) (xs @ [p])"
  by (simp add: drop_Suc tl_drop)

lemma window_store_power:
  assumes "length (power_buffer st) = POWER_BUFFER_SIZE" and "power_index st < POWER_BUFFER_SIZE"
  shows "window (store_power p st) = tl (window st) @ [p]"
proof -
  let ?b = "power_buffer st" and ?i = "power_index st"
  have upd: "?b[?i := p] = take ?i ?b @ p # drop (Suc ?i) ?b"
    using assms by (simp add: upd_conv_take_nth_drop)
  have ne: "drop ?i ?b \<noteq> []" using assms by simp
  have tlw: "tl (window st) = drop (Suc ?i) ?b @ take ?i ?b"
    using ne by (simp add: window_def drop_Suc tl_drop)
  show ?thesis
  proof (cases "Suc ?i = POWER_BUFFER_SIZE")
    case True
    then have "drop (Suc ?i) ?b = []" using assms by simp
    with True assms upd tlw show ?thesis
      by (simp add: store_power_def Let_def window_def)
  next
    case False
    with assms have lt: "Suc ?i < POWER_BUFFER_SIZE" by simp
    then have m: "(?i + 1) mod POWER_BUFFER_SIZE = Suc ?i" by simp
    have len: "length (take ?i ?b) = ?i" using assms by simp
    have "window (store_power p st) =
          drop (Suc ?i) (?b[?i := p]) @ take (Suc ?i) (?b[?i := p])"
      using lt by (simp add: store_power_def Let_def window_def m)
    also have "\<dots> = drop (Suc ?i) ?b @ take ?i ?b @ [p]"
      using len by (simp add: upd)
    finally show ?thesis by (simp add: tlw)
  qed
qed

lemma store_power_shape:
  assumes "length (power_buffer st) = POWER_BUFFER_SIZE" and "power_index st < POWER_BUFFER_SIZE"
  shows "length (power_buffer (store_power p st)) = POWER_BUFFER_SIZE"
    and "power_index (store_power p st) = (power_index st + 1) mod POWER_BUFFER_SIZE"
    and "power_buffer_full (store_power p st) =
           (power_buffer_full st \<or> (power_index st + 1) mod POWER_BUFFER_SIZE = 0)"
    and "baseline_power (store_power p st) =
           (if power_buffer_full (store_power p st)
            then sum_list (window (store_power p st)) / real POWER_BUFFER_SIZE
            else baseline_power st)"
proof -
  show a: "length (power_buffer (store_power p st)) = POWER_BUFFER_SIZE"
    using assms by (simp add: store_power_def Let_def)
  show "power_index (store_power p st) = (power_index st + 1) mod POWER_BUFFER_SIZE"
    by (simp add: store_power_def Let_def)
  show "power_buffer_full (store_power p st) =
           (power_buffer_full st \<or> (power_index st + 1) mod POWER_BUFFER_SIZE = 0)"
    by (simp add: store_power_def Let_def)
  have "baseline_power (store_power p st) =
           (if power_buffer_full (store_power p st)
            then buffer_sum (power_buffer (store_power p st)) / real POWER_BUFFER_SIZE
            else baseline_power st)"
    by (simp add: store_power_def Let_def)
  then show "baseline_power (store_power p st) =
           (if power_buffer_full (store_power p st)
            then sum_list (window (store_power p st)) / real POWER_BUFFER_SIZE
            else baseline_power st)"
    by (simp add: buffer_sum_sum_list [OF a] sum_list_window)
qed

lemma store_all_snoc: "store_all (ps @ [p]) st = store_power p (store_all ps st)"
  by (simp add: store_all_def)

lemma store_all_inv:
  "length (power_buffer (store_all ps baseline_init)) = POWER_BUFFER_SIZE \<and>
   power_index (store_all ps baseline_init) = length ps mod POWER_BUFFER_SIZE \<and>
   power_buffer_full (store_all ps baseline_init) = (POWER_BUFFER_SIZE \<le> length ps) \<and>
   window (store_all ps baseline_init) =
     drop (length ps) (replicate POWER_BUFFER_SIZE 0 @ ps) \<and>
   baseline_power (store_all ps baseline_init) =
     (if POWER_BUFFER_SIZE \<le> length ps
      then sum_list (drop (length ps - POWER_BUFFER_SIZE) ps) / real POWER_BUFFER_SIZE
      else baseline_power baseline_init)"
proof (induction ps rule: rev_induct)
  case Nil
  show ?case by (simp add: store_all_def baseline_init_def window_def POWER_BUFFER_SIZE_def)
next
  case (snoc p ps)
  let ?st = "store_all ps baseline_init"
  from snoc have len: "length (power_buffer ?st) = POWER_BUFFER_SIZE"
    and idx: "power_index ?st = length ps mod POWER_BUFFER_SIZE"
    and full: "power_buffer_full ?st = (POWER_BUFFER_SIZE \<le> length ps)"
    and win: "window ?st = drop (length ps) (replicate POWER_BUFFER_SIZE 0 @ ps)"
    and base: "baseline_power ?st =
     (if POWER_BUFFER_SIZE \<le> length ps
      then sum_list (drop (length ps - POWER_BUFFER_SIZE) ps) / real POWER_BUFFER_SIZE
      else baseline_power baseline_init)"
    by simp_all
  have lt: "power_index ?st < POWER_BUFFER_SIZE"
    by (simp add: idx POWER_BUFFER_SIZE_def)
  note sh = store_power_shape [OF len lt, of p]
  have i': "power_index (store_power p ?st) = length (ps @ [p]) mod POWER_BUFFER_SIZE"
    by (simp add: sh(2) idx mod_Suc_eq)
  have f': "power_buffer_full (store_power p ?st) = (POWER_BUFFER_SIZE \<le> length (ps @ [p]))"
    unfolding sh(3) full idx POWER_BUFFER_SIZE_def by (simp add: mod_Suc_eq) presburger
  have w': "window (store_power p ?st) =
      drop (length (ps @ [p])) (replicate POWER_BUFFER_SIZE 0 @ ps @ [p])"
    using tl_drop_snoc [of "length ps" "replicate POWER_BUFFER_SIZE 0 @ ps" p]
    by (simp add: window_store_power [OF len lt] win POWER_BUFFER_SIZE_def)
  have "POWER_BUFFER_SIZE \<le> length (ps @ [p]) \<Longrightarrow>
      drop (length (ps @ [p])) (replicate POWER_BUFFER_SIZE 0 @ ps @ [p]) =
      drop (length (ps @ [p]) - POWER_BUFFER_SIZE) (ps @ [p])"
    by simp
  then have b': "baseline_power (store_power p ?st) =
     (if POWER_BUFFER_SIZE \<le> length (ps @ [p])
      then sum_list (drop (length (ps @ [p]) - POWER_BUFFER_SIZE) (ps @ [p])) / real POWER_BUFFER_SIZE
      else baseline_power baseline_init)"
    unfolding sh(4) f' w' using base full f' by auto
  show ?case
    unfolding store_all_snoc using sh(1) i' f' w' b' by blast
qed


text \<open>
  Claim C4: while fewer than 100 samples have been stored the buffer is not marked full
  and no baseline has been computed (\<^verbatim>\<open>baseline_power\<close> still holds its initial value);
  from the 100th sample on, after every store, the buffer is marked full and
  \<^verbatim>\<open>baseline_power\<close> is the arithmetic mean of the last 100 samples stored.
\<close>

theorem baseline_sliding_mean:
  "(length ps < POWER_BUFFER_SIZE \<longrightarrow>
      \<not> power_buffer_full (store_all ps baseline_init) \<and>
      baseline_power (store_all ps baseline_init) = baseline_power baseline_init) \<and>
   (POWER_BUFFER_SIZE \<le> length ps \<longrightarrow>
      power_buffer_full (store_all ps baseline_init) \<and>
      baseline_power (store_all ps baseline_init) =
        mean (drop (length ps - POWER_BUFFER_SIZE) ps))"
proof -
  have "POWER_BUFFER_SIZE \<le> length ps \<Longrightarrow>
        mean (drop (length ps - POWER_BUFFER_SIZE) ps) =
        sum_list (drop (length ps - POWER_BUFFER_SIZE) ps) / real POWER_BUFFER_SIZE"
    by (simp add: mean_def)
  with store_all_inv [of ps] show ?thesis by auto
qed

theorem baseline_sliding_mean_witness:
  "POWER_BUFFER_SIZE \<le> length (replicate 100 (1::real) @ [201]) \<and>
   power_buffer_full (store_all (replicate 100 1 @ [201]) baseline_init) \<and>
   baseline_power (store_all (replicate 100 1 @ [201]) baseline_init) = 3 \<and>
   length [5::real] < POWER_BUFFER_SIZE \<and>
   \<not> power_buffer_full (store_all [5] baseline_init) \<and>
   baseline_power (store_all [5] baseline_init) = 0"
proof -
  have a: "POWER_BUFFER_SIZE \<le> length (replicate 100 (1::real) @ [201])"
    by (simp add: POWER_BUFFER_SIZE_def)
  have b: "length [5::real] < POWER_BUFFER_SIZE"
    by (simp add: POWER_BUFFER_SIZE_def)
  have m: "mean (drop (length (replicate 100 (1::real) @ [201]) - POWER_BUFFER_SIZE)
             (replicate 100 1 @ [201])) = 3"
    by (simp add: mean_def POWER_BUFFER_SIZE_def sum_list_replicate)
  have z: "baseline_power baseline_init = 0" by (simp add: baseline_init_def)
  from a b baseline_sliding_mean [of "replicate 100 1 @ [201]"] baseline_sliding_mean [of "[5]"]
  show ?thesis unfolding m z by blast
qed

section \<open>The debounce window\<close>

lemma detect_run_append:
  "detect_run (ta @ tb) lst =
     (fst (detect_run ta lst) @ fst (detect_run tb (snd (detect_run ta lst))),
      snd (detect_run tb (snd (detect_run ta lst))))"
  by (induction ta arbitrary: lst) (auto simp: split_def Let_def)

lemma detect_events_quiet:
  "\<bar>f\<bar> \<le> EVENT_THRESHOLD \<Longrightarrow> detect_events t p f lst = (None, lst)"
  by (simp add: detect_events_def)

lemma detect_run_quiet:
  "list_all (\<lambda>tick. \<bar>snd (snd tick)\<bar> \<le> EVENT_THRESHOLD) mids \<Longrightarrow>
   detect_run mids lst = ([], lst)"
  by (induction mids arbitrary: lst) (auto simp: detect_events_quiet)

text \<open>
  Claim C7: a call inside the debounce window reports nothing and leaves
  \<^verbatim>\<open>last_event_time\<close> as it was, whatever the filtered power; a call that reports nothing
  leaves it as it was; and a call that reports an event was outside the window, had a
  filtered magnitude above the threshold, and sets \<^verbatim>\<open>last_event_time\<close> to the current
  time.
\<close>

theorem detect_events_debounce:
  "(current_time - lst < DEBOUNCE_TIME_MS \<longrightarrow>
      detect_events current_time cp fp lst = (None, lst)) \<and>
   (fst (detect_events current_time cp fp lst) = None \<longrightarrow>
      snd (detect_events current_time cp fp lst) = lst) \<and>
   (fst (detect_events current_time cp fp lst) \<noteq> None \<longrightarrow>
      \<not> current_time - lst < DEBOUNCE_TIME_MS \<and> \<bar>fp\<bar> > EVENT_THRESHOLD \<and>
      snd (detect_events current_time cp fp lst) = current_time)"
  by (simp add: detect_events_def)

theorem detect_events_debounce_witness:
  "(1000 - 0 :: 32 word) < DEBOUNCE_TIME_MS \<and>
   detect_events 1000 5 1000000 0 = (None, 0) \<and>
   fst (detect_events 5000 60 60 0) \<noteq> None \<and>
   snd (detect_events 5000 60 60 0) = 5000 \<and>
   fst (detect_events 5000 60 40 0) = None \<and>
   snd (detect_events 5000 60 40 0) = 0"
proof -
  have a: "(1000 - 0 :: 32 word) < DEBOUNCE_TIME_MS" by (simp add: DEBOUNCE_TIME_MS_def)
  have b: "fst (detect_events 5000 60 60 0) \<noteq> None"
    by (simp add: detect_events_def DEBOUNCE_TIME_MS_def EVENT_THRESHOLD_def)
  have c: "fst (detect_events 5000 60 40 0) = None"
    by (simp add: detect_events_def DEBOUNCE_TIME_MS_def EVENT_THRESHOLD_def)
  from a b c detect_events_debounce [of 1000 0 5 1000000]
    detect_events_debounce [of 5000 0 60 60]
    detect_events_debounce [of 5000 0 60 40]
  show ?thesis by simp
qed

text \<open>
  Claim C3 says that two threshold-crossing samples give one event when less than the
  debounce time apart and two when more than it apart, in any run. From the initial
  state, where \<^verbatim>\<open>last_event_time\<close> is 0, two crossings at 100 ms and 200 ms give no event,
  and two crossings at 1000 ms and 3500 ms give one.
\<close>

theorem detect_run_startup_counterexample:
  "\<bar>60\<bar> > EVENT_THRESHOLD \<and> (200 - 100 :: 32 word) < DEBOUNCE_TIME_MS \<and>
   length (fst (detect_run [(100, 60, 60), (200, 60, 60)] last_event_time_init)) = 0 \<and>
   DEBOUNCE_TIME_MS < (3500 - 1000 :: 32 word) \<and>
   length (fst (detect_run [(1000, 60, 60), (3500, 60, 60)] last_event_time_init)) = 1"
  by (simp add: detect_events_def DEBOUNCE_TIME_MS_def EVENT_THRESHOLD_def
      last_event_time_init_def)

text \<open>
  Claim C3, amended: when the first of two threshold-crossing samples is itself outside
  the debounce window of \<^verbatim>\<open>last_event_time\<close>, and the samples between the two stay at or
  below the threshold, the run reports exactly one event if the second crossing comes
  less than the debounce time after the first, and exactly two otherwise. Times are
  32-bit millisecond counts and their differences wrap around.
\<close>

theorem detect_run_two_crossings:
  "\<bar>f1\<bar> > EVENT_THRESHOLD \<and> \<bar>f2\<bar> > EVENT_THRESHOLD \<and>
   list_all (\<lambda>tick. \<bar>snd (snd tick)\<bar> \<le> EVENT_THRESHOLD) mids \<and>
   \<not> t1 - lst < DEBOUNCE_TIME_MS \<longrightarrow>
   (t2 - t1 < DEBOUNCE_TIME_MS \<longrightarrow>
      length (fst (detect_run ([(t1, p1, f1)] @ mids @ [(t2, p2, f2)]) lst)) = 1) \<and>
   (\<not> t2 - t1 < DEBOUNCE_TIME_MS \<longrightarrow>
      length (fst (detect_run ([(t1, p1, f1)] @ mids @ [(t2, p2, f2)]) lst)) = 2)"
proof (intro impI, elim conjE)
  assume f1: "\<bar>f1\<bar> > EVENT_THRESHOLD" and f2: "\<bar>f2\<bar> > EVENT_THRESHOLD"
    and quiet: "list_all (\<lambda>tick. \<bar>snd (snd tick)\<bar> \<le> EVENT_THRESHOLD) mids"
    and t1: "\<not> t1 - lst < DEBOUNCE_TIME_MS"
  from f1 t1 obtain e where first: "detect_run [(t1, p1, f1)] lst = ([e], t1)"
    by (simp add: detect_events_def)
  have mid: "detect_run mids t1 = ([], t1)"
    using quiet by (rule detect_run_quiet)
  have second: "length (fst (detect_run [(t2, p2, f2)] t1)) =
      (if t2 - t1 < DEBOUNCE_TIME_MS then 0 else 1)"
    using f2 by (simp add: detect_events_def)
  show "(t2 - t1 < DEBOUNCE_TIME_MS \<longrightarrow>
      length (fst (detect_run ([(t1, p1, f1)] @ mids @ [(t2, p2, f2)]) lst)) = 1) \<and>
   (\<not> t2 - t1 < DEBOUNCE_TIME_MS \<longrightarrow>
      length (fst (detect_run ([(t1, p1, f1)] @ mids @ [(t2, p2, f2)]) lst)) = 2)"
    by (simp add: detect_run_append first mid second
        del: detect_run.simps(2) append.simps)
qed

theorem detect_run_two_crossings_witness:
  "length (fst (detect_run ([(5000, 60, 60)] @ [(5050, 60, 10)] @ [(5100, 60, - 70)]) 0)) = 1 \<and>
   length (fst (detect_run ([(5000, 60, 60)] @ [(5050, 60, 10)] @ [(8000, 60, - 70)]) 0)) = 2"
proof -
  have a: "\<bar>60\<bar> > EVENT_THRESHOLD \<and> \<bar>- 70\<bar> > EVENT_THRESHOLD \<and>
     list_all (\<lambda>tick. \<bar>snd (snd tick)\<bar> \<le> EVENT_THRESHOLD) [(5050 :: 32 word, 60 :: real, 10)] \<and>
     \<not> (5000 - 0 :: 32 word) < DEBOUNCE_TIME_MS"
    by (simp add: DEBOUNCE_TIME_MS_def EVENT_THRESHOLD_def)
  have b: "(5100 - 5000 :: 32 word) < DEBOUNCE_TIME_MS" by (simp add: DEBOUNCE_TIME_MS_def)
  have c: "\<not> (8000 - 5000 :: 32 word) < DEBOUNCE_TIME_MS" by (simp add: DEBOUNCE_TIME_MS_def)
  from a b detect_run_two_crossings [of 60 "- 70" "[(5050, 60, 10)]" 5000 0 5100 60 60]
  have one: "length (fst (detect_run ([(5000, 60, 60)] @ [(5050, 60, 10)] @ [(5100, 60, - 70)]) 0)) = 1"
    by blast
  from a c detect_run_two_crossings [of 60 "- 70" "[(5050, 60, 10)]" 5000 0 8000 60 60]
  have two: "length (fst (detect_run ([(5000, 60, 60)] @ [(5050, 60, 10)] @ [(8000, 60, - 70)]) 0)) = 2"
    by blast
  from one two show ?thesis by (rule conjI)
qed

end
